theory Spec2Isabelle
  imports Main "HOL-Library.Sublist" "HOL-Library.Word"
begin

unbundle bit_operations_syntax

section \<open>Package mountinfo: the mount table parser and the mount point detector\<close>

text \<open>
  A shallow embedding of \<^verbatim>\<open>pkg/mountinfo/mountinfo.go\<close>. The two functions of the package,
  \<^verbatim>\<open>parseMountInfoFile\<close> and \<^verbatim>\<open>IsMountFS\<close>, are translated statement by statement. The
  functions of the Go standard library they call are written out where a property of the
  package depends on what they compute (\<^verbatim>\<open>strings.Split\<close>, \<^verbatim>\<open>strconv.ParseInt\<close>); the
  operating system (\<^verbatim>\<open>unix.Lstat\<close>, \<^verbatim>\<open>unix.Statfs\<close>), \<^verbatim>\<open>filepath.Dir\<close> and the
  \<^verbatim>\<open>bufio.Scanner\<close> over the reader are parameters of the model.
\<close>

subsection \<open>Errors\<close>

text \<open>
  \<^verbatim>\<open>strconv.ErrSyntax\<close> and \<^verbatim>\<open>strconv.ErrRange\<close>, the two causes a
  \<^verbatim>\<open>*strconv.NumError\<close> of \<^verbatim>\<open>ParseInt\<close> can hold with a valid base and bit size.
\<close>

datatype num_cause = ErrSyntax | ErrRange

text \<open>
  The error values the parser returns:
  \<^item> \<open>ErrorString msg\<close>: the value of \<^verbatim>\<open>fmt.Errorf\<close> without a wrapping verb; it holds the
    formatted message and nothing else;
  \<^item> \<open>NumError fn num cause\<close>: \<^verbatim>\<open>&strconv.NumError{Func: fn, Num: num, Err: cause}\<close>;
  \<^item> \<open>ScanError d\<close>: whatever \<^verbatim>\<open>scanner.Err()\<close> reports (a read error of the underlying
    reader, or \<^verbatim>\<open>bufio.ErrTooLong\<close>), kept opaque.
\<close>

datatype error =
    ErrorString string
  | NumError string string num_cause
  | ScanError string

subsection \<open>\<^verbatim>\<open>strings.Index\<close>, \<^verbatim>\<open>strings.Count\<close> and \<^verbatim>\<open>strings.Split\<close>\<close>

text \<open>
  \<^verbatim>\<open>strings.Index(s, substr)\<close>: the index of the first instance of \<open>substr\<close> in \<open>s\<close>;
  Go's \<open>-1\<close> is \<open>None\<close>.
\<close>

fun Index :: "string \<Rightarrow> string \<Rightarrow> nat option" where
  "Index [] substr = (if substr = [] then Some 0 else None)"
| "Index (c # s) substr =
     (if prefix substr (c # s) then Some 0 else map_option Suc (Index s substr))"

text \<open>
  \<^verbatim>\<open>strings.Count(s, substr)\<close>: the number of non-overlapping instances of \<open>substr\<close> in
  \<open>s\<close>, found from the left: after an instance at index \<open>i\<close> the search goes on in
  \<^verbatim>\<open>s[i+len(substr):]\<close>. For the empty \<open>substr\<close> Go returns the number of code points
  plus one; a \<open>char\<close> is a byte here, so that branch is right for single-byte text only
  (the package never passes an empty separator).
\<close>

function Count :: "string \<Rightarrow> string \<Rightarrow> nat" where
  "Count s substr =
     (if substr = [] then length s + 1
      else case Index s substr of
             None \<Rightarrow> 0
           | Some i \<Rightarrow> Suc (Count (drop (i + length substr) s) substr))"
  by pat_completeness auto
termination
proof (relation "measure (\<lambda>(s, substr). length s)")
  show "wf (measure (\<lambda>(s, substr). length s))" by simp
next
  fix s substr :: string and i :: nat
  assume ne: "substr \<noteq> []" and ix: "Index s substr = Some i"
  from ne ix have "s \<noteq> []" by (cases s) auto
  moreover from ne have "0 < i + length substr" by simp
  ultimately show "((drop (i + length substr) s, substr), (s, substr))
      \<in> measure (\<lambda>(s, substr). length s)"
    by (cases s) auto
qed

text \<open>
  The loop of \<^verbatim>\<open>strings.genSplit\<close> for a non-empty separator and \<^verbatim>\<open>sepSave = 0\<close>:
  \<^verbatim>\<open>
  for i < n {
      m := Index(s, sep)
      if m < 0 { break }
      a[i] = s[:m+sepSave]
      s = s[m+len(sep):]
      i++
  }
  a[i] = s
  return a[:i+1]
  \<close>
  The first argument is the number \<open>n - i\<close> of iterations the loop may still make.
\<close>

fun genSplit_loop :: "nat \<Rightarrow> string \<Rightarrow> string \<Rightarrow> string list" where
  "genSplit_loop 0 s sep = [s]"
| "genSplit_loop (Suc k) s sep =
     (case Index s sep of
        None \<Rightarrow> [s]
      | Some m \<Rightarrow> take m s # genSplit_loop k (drop (m + length sep) s) sep)"

text \<open>
  \<^verbatim>\<open>strings.Split(s, sep) = genSplit(s, sep, 0, -1)\<close>: \<open>n\<close> is \<open>Count(s, sep) + 1\<close>, cut
  down to \<open>len(s) + 1\<close>, the slice has \<open>n\<close> cells and the loop runs while \<open>i < n - 1\<close>.
  With the empty separator Go explodes \<open>s\<close> into its code points (single bytes here, see
  \<open>Count\<close>).
\<close>

definition Split :: "string \<Rightarrow> string \<Rightarrow> string list" where
  "Split s sep =
     (if sep = [] then map (\<lambda>c. [c]) s
      else let n = Count s sep + 1;
               n = (if n > length s + 1 then length s + 1 else n)
           in genSplit_loop (n - 1) s sep)"

subsection \<open>\<^verbatim>\<open>strconv.ParseInt(s, 10, 64)\<close>\<close>

definition maxUint64 :: int where
  "maxUint64 = 2 ^ 64 - 1"

text \<open>
  The digit of a byte in \<^verbatim>\<open>strconv.ParseUint\<close>: a decimal digit counts as itself, a letter
  of either case as 10 to 35 (\<^verbatim>\<open>lower(c) = c | ('x' - 'X')\<close>), any other byte is a syntax
  error; the underscore is a separator only with base 0, which the package does not use.
\<close>

definition lower :: "int \<Rightarrow> int" where
  "lower c = c OR 32"

definition digit_val :: "char \<Rightarrow> int option" where
  "digit_val ch =
     (let c = (of_char ch :: int) in
      if 48 \<le> c \<and> c \<le> 57 then Some (c - 48)
      else if 97 \<le> lower c \<and> lower c \<le> 122 then Some (lower c - 97 + 10)
      else None)"

text \<open>
  The digit loop of \<^verbatim>\<open>ParseUint\<close> with base 10 and bit size 64. The accumulator \<open>n\<close> is a
  \<^verbatim>\<open>uint64\<close>, an integer with the wrap-around written out: the multiplication and the addition wrap around modulo \<open>2 ^ 64\<close>, and the
  code detects the wrap by \<^verbatim>\<open>n >= cutoff\<close> and \<^verbatim>\<open>n1 < n\<close>. The result is Go's pair of the
  value and the error.
\<close>

fun ParseUint_loop :: "string \<Rightarrow> int \<Rightarrow> int \<times> num_cause option" where
  "ParseUint_loop [] n = (n, None)"
| "ParseUint_loop (c # cs) n =
     (case digit_val c of
        None \<Rightarrow> (0, Some ErrSyntax)
      | Some d \<Rightarrow>
          if d \<ge> 10 then (0, Some ErrSyntax)
          else if n \<ge> maxUint64 div 10 + 1 then (maxUint64, Some ErrRange)
          else let n' = (n * 10) mod 2 ^ 64;
                   n1 = (n' + d) mod 2 ^ 64
               in if n1 < n' \<or> n1 > maxUint64 then (maxUint64, Some ErrRange)
                  else ParseUint_loop cs n1)"

definition ParseUint :: "string \<Rightarrow> int \<times> num_cause option" where
  "ParseUint s = (if s = [] then (0, Some ErrSyntax) else ParseUint_loop s 0)"

text \<open>
  \<^verbatim>\<open>ParseInt\<close>: the empty string is a syntax error; one leading sign is picked off; a syntax
  error of \<^verbatim>\<open>ParseUint\<close> is returned with \<^verbatim>\<open>Func\<close> set to \<^verbatim>\<open>"ParseInt"\<close> and \<^verbatim>\<open>Num\<close> to the
  whole input \<open>s0\<close>; then the magnitude is checked against \<open>2 ^ 63\<close>. \<^verbatim>\<open>int64(un)\<close> and the
  negation are on 64-bit words.
\<close>

definition fnParseInt :: string where
  "fnParseInt = ''ParseInt''"

definition ParseInt :: "string \<Rightarrow> error + 64 word" where
  "ParseInt s0 =
     (if s0 = [] then Inl (NumError fnParseInt s0 ErrSyntax)
      else
        let neg = (hd s0 = CHR ''-'');
            s = (if hd s0 = CHR ''+'' then tl s0 else if hd s0 = CHR ''-'' then tl s0 else s0);
            (un, err) = ParseUint s
        in if err \<noteq> None \<and> err \<noteq> Some ErrRange then Inl (NumError fnParseInt s0 ErrSyntax)
           else
             let cutoff = (2 ^ 63 :: int) in
             if \<not> neg \<and> un \<ge> cutoff then Inl (NumError fnParseInt s0 ErrRange)
             else if neg \<and> un > cutoff then Inl (NumError fnParseInt s0 ErrRange)
             else let n = (word_of_int un :: 64 word) in Inr (if neg then - n else n))"

subsection \<open>The mount table parser\<close>

record MountInfo =
  MountID :: "64 word"
  ParentID :: "64 word"
  StDev :: string
  Root :: string
  MountPoint :: string
  MountOptions :: string
  OptionalFields :: "string list"
  FilesystemType :: string
  MountSource :: string
  SuperOptions :: string

text \<open>
  The loop that collects the optional fields:
  \<^verbatim>\<open>for i := 6; i < len(mountInfoLeft); i++ { optionalFields = append(optionalFields, mountInfoLeft[i]) }\<close>
\<close>

function optionalFields_loop :: "nat \<Rightarrow> string list \<Rightarrow> string list \<Rightarrow> string list" where
  "optionalFields_loop i mountInfoLeft optionalFields =
     (if i < length mountInfoLeft
      then optionalFields_loop (i + 1) mountInfoLeft (optionalFields @ [mountInfoLeft ! i])
      else optionalFields)"
  by pat_completeness auto
termination
  by (relation "measure (\<lambda>(i, mountInfoLeft, optionalFields). length mountInfoLeft - i)") auto

text \<open>
  The body of the scanning loop of \<^verbatim>\<open>parseMountInfoFile\<close> for one line
  \<^verbatim>\<open>mountInfoRaw := scanner.Text()\<close>: \<open>Inl\<close> is the error of a \<^verbatim>\<open>return nil, err\<close>,
  \<open>Inr\<close> the entry appended to \<^verbatim>\<open>result\<close>. The index reads are in range by the length
  checks before them.
\<close>

definition invalidSeparatorMsg :: string where
  "invalidSeparatorMsg = ''invalid mountinfo entry which has more that one '-' separator: ''"

definition invalidEntryMsg :: string where
  "invalidEntryMsg = ''invalid mountinfo entry: ''"

definition parseMountInfoLine :: "string \<Rightarrow> error + MountInfo" where
  "parseMountInfoLine mountInfoRaw =
     (let mountInfoSeparated = Split mountInfoRaw '' - '' in
      if length mountInfoSeparated \<noteq> 2
      then Inl (ErrorString (invalidSeparatorMsg @ mountInfoRaw))
      else
        let mountInfoLeft = Split (mountInfoSeparated ! 0) '' '';
            mountInfoRight = Split (mountInfoSeparated ! 1) '' ''
        in if length mountInfoLeft < 6
           then Inl (ErrorString (invalidEntryMsg @ mountInfoRaw))
           else if length mountInfoRight \<noteq> 3
           then Inl (ErrorString (invalidEntryMsg @ mountInfoRaw))
           else
             case ParseInt (mountInfoLeft ! 0) of
               Inl err \<Rightarrow> Inl err
             | Inr mountID \<Rightarrow>
                 (case ParseInt (mountInfoLeft ! 1) of
                    Inl err \<Rightarrow> Inl err
                  | Inr parentID \<Rightarrow>
                      Inr \<lparr> MountID = mountID,
                            ParentID = parentID,
                            StDev = mountInfoLeft ! 2,
                            Root = mountInfoLeft ! 3,
                            MountPoint = mountInfoLeft ! 4,
                            MountOptions = mountInfoLeft ! 5,
                            OptionalFields = optionalFields_loop 6 mountInfoLeft [],
                            FilesystemType = mountInfoRight ! 0,
                            MountSource = mountInfoRight ! 1,
                            SuperOptions = mountInfoRight ! 2 \<rparr>))"

text \<open>
  The scanner as the function sees it: \<open>tokens\<close> are the values of \<^verbatim>\<open>scanner.Text()\<close> for
  the successive calls of \<^verbatim>\<open>scanner.Scan()\<close> that return true (the lines of the input, in
  order), and \<open>scanErr\<close> is \<^verbatim>\<open>scanner.Err()\<close> once \<^verbatim>\<open>Scan\<close> has returned false (\<open>None\<close> when
  the end of the input was reached).
\<close>

record Scanner =
  tokens :: "string list"
  scanErr :: "error option"

text \<open>
  \<^verbatim>\<open>for scanner.Scan() { ... }\<close> with the accumulator \<^verbatim>\<open>result\<close>: the first line that
  fails leaves the loop and the function with its error.
\<close>

fun scan_loop :: "string list \<Rightarrow> MountInfo list \<Rightarrow> error + MountInfo list" where
  "scan_loop [] result = Inr result"
| "scan_loop (mountInfoRaw # rest) result =
     (case parseMountInfoLine mountInfoRaw of
        Inl err \<Rightarrow> Inl err
      | Inr mi \<Rightarrow> scan_loop rest (result @ [mi]))"

text \<open>
  \<^verbatim>\<open>parseMountInfoFile\<close> returns Go's pair of the slice and the error; the \<^verbatim>\<open>nil\<close> slice
  is the empty list.
\<close>

definition parseMountInfoFile :: "Scanner \<Rightarrow> MountInfo list \<times> error option" where
  "parseMountInfoFile scanner =
     (case scan_loop (tokens scanner) [] of
        Inl err \<Rightarrow> ([], Some err)
      | Inr result \<Rightarrow>
          (case scanErr scanner of
             Some err \<Rightarrow> ([], Some err)
           | None \<Rightarrow> (result, None)))"

text \<open>
  The verdict of the code on one line: \<open>malformed l\<close> holds when the loop body returns an
  error for \<open>l\<close>.
\<close>

definition malformed :: "string \<Rightarrow> bool" where
  "malformed l = (case parseMountInfoLine l of Inl err \<Rightarrow> True | Inr mi \<Rightarrow> False)"

subsection \<open>The mount point detector\<close>

text \<open>
  \<^verbatim>\<open>syscall.Errno\<close>. \<^verbatim>\<open>errors.Is(err, unix.ENOENT)\<close> on an \<^verbatim>\<open>Errno\<close> holds exactly when
  \<open>err\<close> is \<^verbatim>\<open>ENOENT\<close>.
\<close>

type_synonym Errno = nat

definition ENOENT :: Errno where
  "ENOENT = 2"

text \<open>The fields of \<^verbatim>\<open>unix.Stat_t\<close> and \<^verbatim>\<open>unix.Statfs_t\<close> that the function reads.\<close>

record Stat_t =
  Dev :: "64 word"

record Statfs_t =
  Type :: "64 word"

text \<open>\<^verbatim>\<open>unix.BPF_FS_MAGIC\<close> and \<^verbatim>\<open>unix.CGROUP2_SUPER_MAGIC\<close>.\<close>

definition FilesystemTypeBPFFS :: "64 word" where
  "FilesystemTypeBPFFS = 0xcafe4a11"

definition FilesystemTypeCgroup2 :: "64 word" where
  "FilesystemTypeCgroup2 = 0x63677270"

text \<open>
  The environment of a call: what \<^verbatim>\<open>unix.Lstat\<close> and \<^verbatim>\<open>unix.Statfs\<close> answer for a path
  (\<open>Inl\<close> the \<^verbatim>\<open>Errno\<close>), and \<^verbatim>\<open>filepath.Dir\<close>, the lexical parent of a path.
\<close>

record Sys =
  Lstat :: "string \<Rightarrow> Errno + Stat_t"
  Statfs :: "string \<Rightarrow> Errno + Statfs_t"
  Dir :: "string \<Rightarrow> string"

text \<open>\<^verbatim>\<open>&os.PathError{Op: op, Path: path, Err: err}\<close>.\<close>

datatype PathError = PathError string string Errno

text \<open>The queries a call issues, in order.\<close>

datatype syscall = LstatCall string | StatfsCall string

text \<open>
  \<^verbatim>\<open>IsMountFS\<close> returns Go's triple, here together with the list of the queries it made.
\<close>

definition IsMountFS ::
  "Sys \<Rightarrow> 64 word \<Rightarrow> string \<Rightarrow> (bool \<times> bool \<times> PathError option) \<times> syscall list" where
  "IsMountFS sys mntType path =
     (case Lstat sys path of
        Inl err \<Rightarrow>
          if err = ENOENT
          then ((False, False, None), [LstatCall path])
          else ((False, False, Some (PathError ''lstat'' path err)), [LstatCall path])
      | Inr st \<Rightarrow>
          let parent = Dir sys path in
          (case Lstat sys parent of
             Inl err \<Rightarrow>
               ((False, False, Some (PathError ''lstat'' parent err)),
                [LstatCall path, LstatCall parent])
           | Inr pst \<Rightarrow>
               if Dev st = Dev pst
               then ((False, False, None), [LstatCall path, LstatCall parent])
               else
                 (case Statfs sys path of
                    Inl err \<Rightarrow>
                      ((True, False, Some (PathError ''statfs'' path err)),
                       [LstatCall path, LstatCall parent, StatfsCall path])
                  | Inr fs \<Rightarrow>
                      ((True, Type fs = mntType, None),
                       [LstatCall path, LstatCall parent, StatfsCall path]))))"

subsection \<open>Notions of the specification\<close>

text \<open>
  The number of occurrences of \<open>substr\<close> in \<open>s\<close> in the plain sense: the number of
  positions of \<open>s\<close> at which \<open>substr\<close> starts, overlapping or not.
\<close>

fun occurrences :: "string \<Rightarrow> string \<Rightarrow> nat" where
  "occurrences [] substr = (if substr = [] then 1 else 0)"
| "occurrences (c # s) substr =
     (if prefix substr (c # s) then 1 else 0) + occurrences s substr"

text \<open>
  A valid base-10 64-bit integer: an optional sign, then at least one decimal digit and
  nothing else, with a value from \<open>- 2 ^ 63\<close> to \<open>2 ^ 63 - 1\<close>.
\<close>

definition is_digit :: "char \<Rightarrow> bool" where
  "is_digit c = (48 \<le> (of_char c :: int) \<and> (of_char c :: int) \<le> 57)"

fun dec_val :: "string \<Rightarrow> int \<Rightarrow> int" where
  "dec_val [] a = a"
| "dec_val (c # cs) a = dec_val cs (a * 10 + (of_char c - 48))"

definition valid_int64 :: "string \<Rightarrow> bool" where
  "valid_int64 s =
     (case s of
        [] \<Rightarrow> False
      | c # cs \<Rightarrow>
          let ds = (if c = CHR ''+'' \<or> c = CHR ''-'' then cs else s);
              v = (if c = CHR ''-'' then - dec_val ds 0 else dec_val ds 0)
          in ds \<noteq> [] \<and> list_all is_digit ds \<and> - (2 ^ 63) \<le> v \<and> v \<le> 2 ^ 63 - 1)"

text \<open>
  An error value carries a text when the text occurs in one of the strings the value
  holds: the message of an \<open>ErrorString\<close>, the \<^verbatim>\<open>Func\<close> and \<^verbatim>\<open>Num\<close> of a \<open>NumError\<close>.
\<close>

definition contains :: "string \<Rightarrow> string \<Rightarrow> bool" where
  "contains s substr = (case Index s substr of None \<Rightarrow> False | Some i \<Rightarrow> True)"

fun carries :: "error \<Rightarrow> string \<Rightarrow> bool" where
  "carries (ErrorString msg) t = contains msg t"
| "carries (NumError fn num cause) t = (contains fn t \<or> contains num t)"
| "carries (ScanError d) t = contains d t"

text \<open>
  The grammar of a line in the words of the specification. The field conditions: the line
  splits on the separator in a left and a right part, and the left part has fewer than 6
  fields, or the right part a number of fields other than 3, or the first or the second
  left field is not a valid base-10 64-bit integer.
\<close>

definition bad_fields :: "string \<Rightarrow> bool" where
  "bad_fields l =
     (case Split l '' - '' of
        [left, right] \<Rightarrow>
          (let lf = Split left '' ''; rf = Split right '' ''
           in length lf < 6 \<or> length rf \<noteq> 3
              \<or> \<not> valid_int64 (lf ! 0) \<or> \<not> valid_int64 (lf ! 1))
      | _ \<Rightarrow> False)"

text \<open>
  A line is malformed, as the specification words it, when the separator does not occur
  exactly once in it or a field condition fails.
\<close>

definition spec_malformed :: "string \<Rightarrow> bool" where
  "spec_malformed l = (occurrences l '' - '' \<noteq> 1 \<or> bad_fields l)"

text \<open>
  The same grammar with the instances of the separator counted from the left without
  overlap, as \<^verbatim>\<open>strings.Count\<close> counts them.
\<close>

definition split_malformed :: "string \<Rightarrow> bool" where
  "split_malformed l = (Count l '' - '' \<noteq> 1 \<or> bad_fields l)"

subsection \<open>An environment and a mount table to run the functions on\<close>

definition EACCES :: Errno where
  "EACCES = 13"

definition ESTALE :: Errno where
  "ESTALE = 116"

text \<open>
  \<^verbatim>\<open>/sys/fs/bpf\<close> is a BPF filesystem mounted under \<^verbatim>\<open>/sys/fs\<close>, \<^verbatim>\<open>/sys/fs/cgroup\<close> a plain
  directory on the device of \<^verbatim>\<open>/sys/fs\<close>, \<^verbatim>\<open>/mnt/stale\<close> a mount whose filesystem no longer
  answers, \<^verbatim>\<open>/root/private\<close> may not be looked at, \<^verbatim>\<open>/gone/child\<close> has lost its parent
  between the two queries, and no other path exists.
\<close>

definition exampleSys :: Sys where
  "exampleSys =
     \<lparr> Lstat = (\<lambda>p. if p = ''/sys/fs/bpf'' then Inr \<lparr> Dev = 30 \<rparr>
                     else if p = ''/sys/fs'' then Inr \<lparr> Dev = 22 \<rparr>
                     else if p = ''/sys/fs/cgroup'' then Inr \<lparr> Dev = 22 \<rparr>
                     else if p = ''/mnt/stale'' then Inr \<lparr> Dev = 40 \<rparr>
                     else if p = ''/mnt'' then Inr \<lparr> Dev = 2 \<rparr>
                     else if p = ''/root/private'' then Inl EACCES
                     else if p = ''/gone/child'' then Inr \<lparr> Dev = 2 \<rparr>
                     else Inl ENOENT),
       Statfs = (\<lambda>p. if p = ''/sys/fs/bpf'' then Inr \<lparr> Type = FilesystemTypeBPFFS \<rparr>
                      else if p = ''/mnt/stale'' then Inl ESTALE
                      else Inl ENOENT),
       Dir = (\<lambda>p. if p = ''/sys/fs/bpf'' \<or> p = ''/sys/fs/cgroup'' then ''/sys/fs''
                   else if p = ''/mnt/stale'' then ''/mnt''
                   else if p = ''/gone/child'' then ''/gone''
                   else if p = ''/root/private'' then ''/root''
                   else ''/'') \<rparr>"

definition exampleLine :: string where
  "exampleLine = ''17 1 8:1 / / rw,relatime shared:1 - ext4 /dev/sda1 rw,errors=remount-ro''"

definition exampleEntry :: MountInfo where
  "exampleEntry =
     \<lparr> MountID = 17, ParentID = 1, StDev = ''8:1'', Root = ''/'', MountPoint = ''/'',
       MountOptions = ''rw,relatime'', OptionalFields = [''shared:1''],
       FilesystemType = ''ext4'', MountSource = ''/dev/sda1'',
       SuperOptions = ''rw,errors=remount-ro'' \<rparr>"

section \<open>Properties of the library functions\<close>

declare Count.simps [simp del]
declare optionalFields_loop.simps [simp del]

lemma Index_Some_bound: "Index s sub = Some m \<Longrightarrow> m + length sub \<le> length s"
proof (induction s arbitrary: m)
  case Nil
  then show ?case by (simp split: if_splits)
next
  case (Cons c s)
  show ?case
  proof (cases "prefix sub (c # s)")
    case True
    with Cons.prems have "m = 0" by simp
    moreover from True have "length sub \<le> length (c # s)" by (rule prefix_length_le)
    ultimately show ?thesis by simp
  next
    case False
    with Cons.prems obtain m' where "Index s sub = Some m'" and "m = Suc m'" by auto
    with Cons.IH show ?thesis by auto
  qed
qed

lemma Index_Some_split:
  "Index s sub = Some m \<Longrightarrow> s = take m s @ sub @ drop (m + length sub) s"
proof (induction s arbitrary: m)
  case Nil
  then show ?case by (simp split: if_splits)
next
  case (Cons c s)
  show ?case
  proof (cases "prefix sub (c # s)")
    case True
    with Cons.prems have m: "m = 0" by simp
    from True obtain zs where "c # s = sub @ zs" by (auto simp: prefix_def)
    with m show ?thesis by simp
  next
    case False
    with Cons.prems obtain m' where m': "Index s sub = Some m'" "m = Suc m'" by auto
    from Cons.IH [OF m'(1)] m'(2) show ?thesis by simp
  qed
qed

lemma contains_length: "contains s t \<Longrightarrow> length t \<le> length s"
  using Index_Some_bound [of s t] by (auto simp add: contains_def split: option.splits)

lemma Index_Some_nonempty: "sub \<noteq> [] \<Longrightarrow> Index s sub = Some m \<Longrightarrow> s \<noteq> []"
  by (cases s) auto

lemma Count_le_length: "sub \<noteq> [] \<Longrightarrow> Count s sub \<le> length s"
proof (induction s sub rule: Count.induct)
  case (1 s sub)
  show ?case
  proof (cases "Index s sub")
    case None
    with 1 show ?thesis by (simp add: Count.simps)
  next
    case (Some i)
    with 1 have "Count (drop (i + length sub) s) sub \<le> length s - (i + length sub)"
      by simp
    moreover from Some have "i + length sub \<le> length s"
      by (rule Index_Some_bound)
    moreover from "1.prems" obtain a as where "sub = a # as" by (cases sub) auto
    ultimately show ?thesis using Some by (simp add: Count.simps [of s])
  qed
qed

lemma length_genSplit_loop:
  "sep \<noteq> [] \<Longrightarrow> length (genSplit_loop (Count s sep) s sep) = Suc (Count s sep)"
proof (induction s sep rule: Count.induct)
  case (1 s sep)
  show ?case
  proof (cases "Index s sep")
    case None
    with 1 show ?thesis by (simp add: Count.simps)
  next
    case (Some i)
    with 1 show ?thesis by (simp add: Count.simps [of s])
  qed
qed

lemma Index_Some_occurrences: "Index s sub = Some m \<Longrightarrow> 0 < occurrences s sub"
proof (induction s arbitrary: m)
  case Nil
  then show ?case by (simp split: if_splits)
next
  case (Cons c s)
  show ?case
  proof (cases "prefix sub (c # s)")
    case True
    then show ?thesis by simp
  next
    case False
    with Cons.prems obtain m' where "Index s sub = Some m'" by auto
    with Cons.IH have "0 < occurrences s sub" by blast
    then show ?thesis by simp
  qed
qed

lemma occurrences_zero_Count: "sub \<noteq> [] \<Longrightarrow> occurrences s sub = 0 \<Longrightarrow> Count s sub = 0"
  using Index_Some_occurrences [of s sub] by (cases "Index s sub") (auto simp add: Count.simps)

lemma Split_eq: "sep \<noteq> [] \<Longrightarrow> Split s sep = genSplit_loop (Count s sep) s sep"
  using Count_le_length [of sep s] by (simp add: Split_def Let_def)

lemma length_Split: "sep \<noteq> [] \<Longrightarrow> length (Split s sep) = Suc (Count s sep)"
  by (simp add: Split_eq length_genSplit_loop)

lemma genSplit_loop_elem_length:
  "x \<in> set (genSplit_loop k s sep) \<Longrightarrow> length x \<le> length s"
proof (induction k arbitrary: s)
  case 0
  then show ?case by simp
next
  case (Suc k)
  show ?case
  proof (cases "Index s sep")
    case None
    with Suc.prems show ?thesis by simp
  next
    case (Some m)
    with Suc.prems have "x = take m s \<or> x \<in> set (genSplit_loop k (drop (m + length sep) s) sep)"
      by simp
    then show ?thesis
    proof
      assume "x = take m s"
      then show ?thesis by simp
    next
      assume "x \<in> set (genSplit_loop k (drop (m + length sep) s) sep)"
      then have "length x \<le> length (drop (m + length sep) s)" by (rule Suc.IH)
      then show ?thesis by simp
    qed
  qed
qed

lemma Split_elem_length: "sep \<noteq> [] \<Longrightarrow> x \<in> set (Split s sep) \<Longrightarrow> length x \<le> length s"
  by (simp add: Split_eq genSplit_loop_elem_length)

lemma Split_two:
  assumes "sep \<noteq> []" and "Split s sep = [l, r]"
  shows "s = l @ sep @ r"
proof -
  from assms have c: "Count s sep = 1"
    using length_Split [of sep s] by simp
  from assms have g: "genSplit_loop (Suc 0) s sep = [l, r]"
    by (simp add: Split_eq c)
  show ?thesis
  proof (cases "Index s sep")
    case None
    with g show ?thesis by simp
  next
    case (Some m)
    with g have "l = take m s" "r = drop (m + length sep) s" by simp_all
    with Index_Some_split [OF Some] show ?thesis by simp
  qed
qed

lemma optionalFields_loop_drop:
  "optionalFields_loop i xs acc = acc @ drop i xs"
proof (induction i xs acc rule: optionalFields_loop.induct)
  case (1 i xs acc)
  show ?case
  proof (cases "i < length xs")
    case True
    with 1 show ?thesis
      by (simp add: optionalFields_loop.simps [of i] Cons_nth_drop_Suc)
  next
    case False
    then show ?thesis by (simp add: optionalFields_loop.simps [of i])
  qed
qed

subsection \<open>\<^verbatim>\<open>ParseInt\<close> accepts exactly the valid base-10 64-bit integers\<close>

lemma digit_val_digit: "is_digit c \<Longrightarrow> digit_val c = Some (of_char c - 48)"
  by (simp add: digit_val_def is_digit_def Let_def)

lemma digit_val_nondigit:
  "\<not> is_digit c \<Longrightarrow> digit_val c = None \<or> (\<exists>d. digit_val c = Some d \<and> d \<ge> 10)"
  by (auto simp add: digit_val_def is_digit_def Let_def)

lemma dec_val_ge: "list_all is_digit ds \<Longrightarrow> 0 \<le> a \<Longrightarrow> a \<le> dec_val ds a"
proof (induction ds arbitrary: a)
  case Nil
  then show ?case by simp
next
  case (Cons c ds)
  from Cons.prems have d: "0 \<le> (of_char c :: int) - 48" by (simp add: is_digit_def)
  with Cons.prems have "0 \<le> a * 10 + (of_char c - 48)" by simp
  with Cons.prems have "a * 10 + (of_char c - 48) \<le> dec_val ds (a * 10 + (of_char c - 48))"
    by (intro Cons.IH) simp_all
  with d Cons.prems show ?case by simp
qed

lemma uint64_mul:
  fixes n :: int
  assumes "0 \<le> n" and "n \<le> 1844674407370955161"
  shows "(n * 10) mod 2 ^ 64 = n * 10"
  using assms by simp

lemma uint64_add_fits:
  fixes n d :: int
  assumes "0 \<le> n" and "0 \<le> d" and "n * 10 + d \<le> 18446744073709551615"
  shows "(n * 10 + d) mod 2 ^ 64 = n * 10 + d"
  using assms by simp

lemma uint64_add_wraps:
  fixes n d :: int
  assumes "n \<le> 1844674407370955161" and "d \<le> 9" and "18446744073709551615 < n * 10 + d"
  shows "(n * 10 + d) mod 2 ^ 64 = n * 10 + d - 2 ^ 64"
proof -
  have "(n * 10 + d) mod 2 ^ 64 = (n * 10 + d - 2 ^ 64) mod 2 ^ 64"
    by (simp only: minus_mod_self2)
  also have "\<dots> = n * 10 + d - 2 ^ 64"
    using assms by (intro mod_pos_pos_trivial) simp_all
  finally show ?thesis .
qed

lemma ParseUint_loop_digits:
  "list_all is_digit ds \<Longrightarrow> 0 \<le> n \<Longrightarrow> n \<le> maxUint64 \<Longrightarrow>
     ParseUint_loop ds n =
       (if dec_val ds n \<le> maxUint64 then (dec_val ds n, None) else (maxUint64, Some ErrRange))"
proof (induction ds arbitrary: n)
  case Nil
  then show ?case by simp
next
  case (Cons c ds)
  let ?d = "of_char c - 48 :: int"
  from Cons.prems have ds: "list_all is_digit ds" and c: "is_digit c"
    by simp_all
  from c have dv: "digit_val c = Some ?d" and d: "0 \<le> ?d" "?d \<le> 9"
    by (simp_all add: digit_val_digit is_digit_def)
  from ds d Cons.prems have ge: "n * 10 + ?d \<le> dec_val ds (n * 10 + ?d)"
    by (intro dec_val_ge) simp_all
  show ?case
  proof (cases "n \<ge> maxUint64 div 10 + 1")
    case True
    then have "maxUint64 < n * 10 + ?d" using d by (simp add: maxUint64_def)
    with ge have "\<not> dec_val ds (n * 10 + ?d) \<le> maxUint64" by simp
    with True dv d show ?thesis by simp
  next
    case False
    then have n: "n \<le> 1844674407370955161" by (simp add: maxUint64_def)
    from Cons.prems have n0: "0 \<le> n" by simp
    note mul = uint64_mul [OF n0 n]
    show ?thesis
    proof (cases "n * 10 + ?d \<le> maxUint64")
      case True
      then have le: "n * 10 + ?d \<le> 18446744073709551615" by (simp add: maxUint64_def)
      have "ParseUint_loop (c # ds) n = ParseUint_loop ds (n * 10 + ?d)"
        using False dv d True mul uint64_add_fits [OF n0 d(1) le] by (simp add: Let_def)
      also have "\<dots> = (if dec_val ds (n * 10 + ?d) \<le> maxUint64
                        then (dec_val ds (n * 10 + ?d), None) else (maxUint64, Some ErrRange))"
        using ds d Cons.prems True by (intro Cons.IH) simp_all
      finally show ?thesis by simp
    next
      case over: False
      then have gt: "18446744073709551615 < n * 10 + ?d" by (simp add: maxUint64_def)
      have "ParseUint_loop (c # ds) n = (maxUint64, Some ErrRange)"
        using False dv d mul uint64_add_wraps [OF n d(2) gt] by (simp add: Let_def)
      moreover from over ge have "\<not> dec_val ds (n * 10 + ?d) \<le> maxUint64" by simp
      ultimately show ?thesis by simp
    qed
  qed
qed

lemma ParseUint_loop_nondigit:
  "\<not> list_all is_digit ds \<Longrightarrow>
     ParseUint_loop ds n = (0, Some ErrSyntax) \<or> ParseUint_loop ds n = (maxUint64, Some ErrRange)"
proof (induction ds arbitrary: n)
  case Nil
  then show ?case by simp
next
  case (Cons c ds)
  show ?case
  proof (cases "is_digit c")
    case True
    with Cons.prems have "\<not> list_all is_digit ds" by simp
    note ih = Cons.IH [OF this]
    from True have "digit_val c = Some (of_char c - 48)" by (rule digit_val_digit)
    then show ?thesis using ih by (auto simp add: Let_def)
  next
    case False
    from digit_val_nondigit [OF this] show ?thesis by auto
  qed
qed

lemma ParseInt_cases:
  "(\<exists>w. ParseInt s = Inr w) \<or> (\<exists>cause. ParseInt s = Inl (NumError fnParseInt s cause))"
  by (auto simp add: ParseInt_def Let_def split: prod.splits)

lemma ParseInt_Inr_iff: "(\<exists>w. ParseInt s = Inr w) \<longleftrightarrow> valid_int64 s"
proof (cases s)
  case Nil
  then show ?thesis by (simp add: ParseInt_def valid_int64_def)
next
  case (Cons c cs)
  define ds where "ds = (if c = CHR ''+'' \<or> c = CHR ''-'' then cs else s)"
  define v where "v = dec_val ds 0"
  have valid: "valid_int64 s \<longleftrightarrow>
      ds \<noteq> [] \<and> list_all is_digit ds
      \<and> - (2 ^ 63) \<le> (if c = CHR ''-'' then - v else v)
      \<and> (if c = CHR ''-'' then - v else v) \<le> 2 ^ 63 - 1"
    using Cons by (simp add: valid_int64_def Let_def ds_def v_def)
  have pi: "ParseInt s =
      (case ParseUint ds of (un, err) \<Rightarrow>
         if err \<noteq> None \<and> err \<noteq> Some ErrRange then Inl (NumError fnParseInt s ErrSyntax)
         else if c \<noteq> CHR ''-'' \<and> un \<ge> 2 ^ 63 then Inl (NumError fnParseInt s ErrRange)
         else if c = CHR ''-'' \<and> un > 2 ^ 63 then Inl (NumError fnParseInt s ErrRange)
         else Inr (if c = CHR ''-'' then - word_of_int un else word_of_int un))"
    using Cons by (auto simp add: ParseInt_def Let_def ds_def split: prod.splits)
  have p63: "(2 :: int) ^ 63 = 9223372036854775808" by simp
  show ?thesis
  proof (cases "ds = []")
    case True
    then show ?thesis by (simp add: pi valid ParseUint_def)
  next
    case ne: False
    show ?thesis
    proof (cases "list_all is_digit ds")
      case True
      have v0: "0 \<le> v" using dec_val_ge [OF True, of 0] by (simp add: v_def)
      have "ParseUint ds = (if v \<le> maxUint64 then (v, None) else (maxUint64, Some ErrRange))"
        using ne ParseUint_loop_digits [OF True, of 0]
        by (simp add: ParseUint_def v_def maxUint64_def)
      then show ?thesis using v0 ne True
        by (auto simp add: pi valid maxUint64_def p63 split: if_splits)
    next
      case False
      from ParseUint_loop_nondigit [OF this, of 0] ne
      have "ParseUint ds = (0, Some ErrSyntax) \<or> ParseUint ds = (maxUint64, Some ErrRange)"
        by (simp add: ParseUint_def)
      then show ?thesis using False
        by (auto simp add: pi valid maxUint64_def p63 split: if_splits)
    qed
  qed
qed

lemma ParseInt_invalid:
  "\<not> valid_int64 s \<Longrightarrow> \<exists>cause. ParseInt s = Inl (NumError fnParseInt s cause)"
  using ParseInt_cases [of s] ParseInt_Inr_iff [of s] by blast

subsection \<open>The scanning loop\<close>

lemma malformed_iff: "malformed l \<longleftrightarrow> (\<exists>err. parseMountInfoLine l = Inl err)"
  by (simp add: malformed_def split: sum.splits)

lemma not_malformed_iff: "\<not> malformed l \<longleftrightarrow> (\<exists>mi. parseMountInfoLine l = Inr mi)"
  by (simp add: malformed_def split: sum.splits)

lemma scan_loop_ok:
  "\<forall>l \<in> set ls. \<not> malformed l \<Longrightarrow>
     \<exists>res. scan_loop ls acc = Inr (acc @ res) \<and> map Inr res = map parseMountInfoLine ls"
proof (induction ls arbitrary: acc)
  case Nil
  then show ?case by simp
next
  case (Cons l ls)
  from Cons.prems obtain mi where mi: "parseMountInfoLine l = Inr mi"
    by (auto simp: not_malformed_iff)
  from Cons.prems have "\<forall>l \<in> set ls. \<not> malformed l" by simp
  from Cons.IH [OF this, of "acc @ [mi]"] obtain res
    where res: "scan_loop ls (acc @ [mi]) = Inr ((acc @ [mi]) @ res)"
      "map Inr res = map parseMountInfoLine ls"
    by blast
  have "scan_loop (l # ls) acc = Inr (acc @ (mi # res))"
    using mi res(1) by simp
  moreover have "map Inr (mi # res) = map parseMountInfoLine (l # ls)"
    using mi res(2) by simp
  ultimately show ?case by blast
qed

lemma scan_loop_fail:
  "\<forall>l \<in> set pre. \<not> malformed l \<Longrightarrow> parseMountInfoLine bad = Inl err \<Longrightarrow>
     scan_loop (pre @ bad # post) acc = Inl err"
proof (induction pre arbitrary: acc)
  case Nil
  then show ?case by simp
next
  case (Cons l pre)
  from Cons.prems obtain mi where mi: "parseMountInfoLine l = Inr mi"
    by (auto simp: not_malformed_iff)
  from Cons.prems have "scan_loop (pre @ bad # post) (acc @ [mi]) = Inl err"
    by (intro Cons.IH) simp_all
  with mi show ?case by simp
qed

subsection \<open>The lines the parser rejects\<close>

lemma length_two: "length xs = 2 \<Longrightarrow> \<exists>a b. xs = [a, b]"
  by (cases xs; cases "tl xs") auto

lemma split_malformed_iff:
  "split_malformed l \<longleftrightarrow> (\<exists>err. parseMountInfoLine l = Inl err)"
proof (cases "Count l '' - '' = 1")
  case False
  then have "length (Split l '' - '') \<noteq> 2"
    by (simp add: length_Split)
  with False show ?thesis
    by (simp add: split_malformed_def parseMountInfoLine_def)
next
  case True
  then have "length (Split l '' - '') = 2"
    by (simp add: length_Split)
  then obtain left right where sp: "Split l '' - '' = [left, right]"
    using length_two by blast
  let ?lf = "Split left '' ''" and ?rf = "Split right '' ''"
  show ?thesis
  proof (cases "length ?lf < 6 \<or> length ?rf \<noteq> 3")
    case True
    with sp \<open>Count l '' - '' = 1\<close> show ?thesis
      by (auto simp add: split_malformed_def bad_fields_def parseMountInfoLine_def Let_def)
  next
    case counts: False
    show ?thesis
    proof (cases "valid_int64 (?lf ! 0)")
      case False
      from ParseInt_invalid [OF this] obtain cause
        where "ParseInt (?lf ! 0) = Inl (NumError fnParseInt (?lf ! 0) cause)" ..
      with False sp counts show ?thesis
        by (simp add: split_malformed_def bad_fields_def parseMountInfoLine_def Let_def)
    next
      case v0: True
      then obtain w0 where w0: "ParseInt (?lf ! 0) = Inr w0"
        using ParseInt_Inr_iff [of "?lf ! 0"] by blast
      show ?thesis
      proof (cases "valid_int64 (?lf ! 1)")
        case False
        from ParseInt_invalid [OF this] obtain cause
          where "ParseInt (?lf ! 1) = Inl (NumError fnParseInt (?lf ! 1) cause)" ..
        with False sp counts w0 show ?thesis
          by (simp add: split_malformed_def bad_fields_def parseMountInfoLine_def Let_def)
      next
        case v1: True
        then obtain w1 where w1: "ParseInt (?lf ! 1) = Inr w1"
          using ParseInt_Inr_iff [of "?lf ! 1"] by blast
        from sp counts v0 v1 w0 w1 \<open>Count l '' - '' = 1\<close> show ?thesis
          by (simp add: split_malformed_def bad_fields_def parseMountInfoLine_def Let_def)
      qed
    qed
  qed
qed

lemma split_malformed_malformed: "split_malformed l \<longleftrightarrow> malformed l"
  by (simp add: split_malformed_iff malformed_iff)

section \<open>The mount point detector\<close>

text \<open>
  Claim C1. When the devices of \<open>path\<close> and of its lexical parent differ, \<^verbatim>\<open>IsMountFS\<close>
  reports a mount point; the second result is true exactly when the type that
  \<^verbatim>\<open>Statfs\<close> reports for \<open>path\<close> equals \<open>mntType\<close>; and when \<^verbatim>\<open>Statfs\<close> fails, the call
  returns the error of the \<^verbatim>\<open>statfs\<close> on \<open>path\<close> and still reports a mount point.
\<close>

theorem IsMountFS_mount_point:
  assumes "Lstat sys path = Inr st"
    and "Lstat sys (Dir sys path) = Inr pst"
    and "Dev st \<noteq> Dev pst"
  shows "fst (IsMountFS sys mntType path) =
           (case Statfs sys path of
              Inr fs \<Rightarrow> (True, Type fs = mntType, None)
            | Inl err \<Rightarrow> (True, False, Some (PathError ''statfs'' path err)))"
  using assms by (simp add: IsMountFS_def Let_def split: sum.splits)

theorem IsMountFS_mount_point_witness:
  "Lstat exampleSys ''/sys/fs/bpf'' = Inr \<lparr> Dev = 30 \<rparr>
   \<and> Lstat exampleSys (Dir exampleSys ''/sys/fs/bpf'') = Inr \<lparr> Dev = 22 \<rparr>
   \<and> Dev \<lparr> Dev = 30 \<rparr> \<noteq> Dev \<lparr> Dev = 22 \<rparr>
   \<and> fst (IsMountFS exampleSys FilesystemTypeBPFFS ''/sys/fs/bpf'') = (True, True, None)
   \<and> fst (IsMountFS exampleSys FilesystemTypeCgroup2 ''/sys/fs/bpf'') = (True, False, None)
   \<and> Lstat exampleSys ''/mnt/stale'' = Inr \<lparr> Dev = 40 \<rparr>
   \<and> Lstat exampleSys (Dir exampleSys ''/mnt/stale'') = Inr \<lparr> Dev = 2 \<rparr>
   \<and> Dev \<lparr> Dev = 40 \<rparr> \<noteq> Dev \<lparr> Dev = 2 \<rparr>
   \<and> Statfs exampleSys ''/mnt/stale'' = Inl ESTALE
   \<and> fst (IsMountFS exampleSys FilesystemTypeBPFFS ''/mnt/stale'') =
       (True, False, Some (PathError ''statfs'' ''/mnt/stale'' ESTALE))"
proof -
  have k1: "Lstat exampleSys ''/mnt/stale'' = Inr \<lparr> Dev = 40 \<rparr>"
    by (simp add: exampleSys_def)
  have k2: "Lstat exampleSys (Dir exampleSys ''/mnt/stale'') = Inr \<lparr> Dev = 2 \<rparr>"
    by (simp add: exampleSys_def)
  have k3: "Dev \<lparr> Dev = 40 \<rparr> \<noteq> Dev \<lparr> Dev = 2 \<rparr>"
    by simp
  have t: "Statfs exampleSys ''/mnt/stale'' = Inl ESTALE"
    by (simp add: exampleSys_def)
  have h1: "Lstat exampleSys ''/sys/fs/bpf'' = Inr \<lparr> Dev = 30 \<rparr>"
    by (simp add: exampleSys_def)
  have h2: "Lstat exampleSys (Dir exampleSys ''/sys/fs/bpf'') = Inr \<lparr> Dev = 22 \<rparr>"
    by (simp add: exampleSys_def)
  have h3: "Dev \<lparr> Dev = 30 \<rparr> \<noteq> Dev \<lparr> Dev = 22 \<rparr>"
    by simp
  have s: "Statfs exampleSys ''/sys/fs/bpf'' = Inr \<lparr> Type = FilesystemTypeBPFFS \<rparr>"
    by (simp add: exampleSys_def)
  have ne: "FilesystemTypeBPFFS \<noteq> FilesystemTypeCgroup2"
    by (simp add: FilesystemTypeBPFFS_def FilesystemTypeCgroup2_def)
  show ?thesis
    using IsMountFS_mount_point [OF h1 h2 h3, where mntType = FilesystemTypeBPFFS]
      IsMountFS_mount_point [OF h1 h2 h3, where mntType = FilesystemTypeCgroup2]
      IsMountFS_mount_point [OF k1 k2 k3, where mntType = FilesystemTypeBPFFS]
      h1 h2 h3 k1 k2 k3 ne
    by (simp add: s t)
qed

text \<open>
  Claim C3. The clauses follow the order of the function. When the \<^verbatim>\<open>Lstat\<close> of \<open>path\<close>
  fails with \<^verbatim>\<open>ENOENT\<close> the result is \<open>(false, false)\<close> without an error; when it fails
  with another error the result is a \<^verbatim>\<open>PathError\<close> with the operation \<^verbatim>\<open>lstat\<close>, the path
  and the error; and when it succeeds and the \<^verbatim>\<open>Lstat\<close> of the lexical parent fails, with
  any error (\<^verbatim>\<open>ENOENT\<close> too), the result is a \<^verbatim>\<open>PathError\<close> with the operation \<^verbatim>\<open>lstat\<close>,
  the parent and the error.
\<close>

theorem IsMountFS_lstat_errors:
  "(Lstat sys path = Inl ENOENT \<longrightarrow> fst (IsMountFS sys mntType path) = (False, False, None))
   \<and> (\<forall>err. Lstat sys path = Inl err \<and> err \<noteq> ENOENT \<longrightarrow>
         fst (IsMountFS sys mntType path) = (False, False, Some (PathError ''lstat'' path err)))
   \<and> (\<forall>st err. Lstat sys path = Inr st \<and> Lstat sys (Dir sys path) = Inl err \<longrightarrow>
         fst (IsMountFS sys mntType path) =
           (False, False, Some (PathError ''lstat'' (Dir sys path) err)))"
  by (simp add: IsMountFS_def Let_def)

theorem IsMountFS_lstat_errors_witness:
  "Lstat exampleSys ''/nowhere'' = Inl ENOENT
   \<and> fst (IsMountFS exampleSys FilesystemTypeBPFFS ''/nowhere'') = (False, False, None)
   \<and> Lstat exampleSys ''/root/private'' = Inl EACCES \<and> EACCES \<noteq> ENOENT
   \<and> fst (IsMountFS exampleSys FilesystemTypeBPFFS ''/root/private'') =
       (False, False, Some (PathError ''lstat'' ''/root/private'' EACCES))
   \<and> Lstat exampleSys ''/gone/child'' = Inr \<lparr> Dev = 2 \<rparr>
   \<and> Lstat exampleSys (Dir exampleSys ''/gone/child'') = Inl ENOENT
   \<and> fst (IsMountFS exampleSys FilesystemTypeBPFFS ''/gone/child'') =
       (False, False, Some (PathError ''lstat'' ''/gone'' ENOENT))"
proof -
  have a: "Lstat exampleSys ''/nowhere'' = Inl ENOENT"
    by (simp add: exampleSys_def)
  have b: "Lstat exampleSys ''/root/private'' = Inl EACCES \<and> EACCES \<noteq> ENOENT"
    by (simp add: exampleSys_def EACCES_def ENOENT_def)
  have c: "Lstat exampleSys ''/gone/child'' = Inr \<lparr> Dev = 2 \<rparr>
      \<and> Lstat exampleSys (Dir exampleSys ''/gone/child'') = Inl ENOENT"
    by (simp add: exampleSys_def)
  have d: "Dir exampleSys ''/gone/child'' = ''/gone''"
    by (simp add: exampleSys_def)
  show ?thesis
    using IsMountFS_lstat_errors
        [where sys = exampleSys and path = "''/nowhere''" and mntType = FilesystemTypeBPFFS]
      IsMountFS_lstat_errors
        [where sys = exampleSys and path = "''/root/private''" and mntType = FilesystemTypeBPFFS]
      IsMountFS_lstat_errors
        [where sys = exampleSys and path = "''/gone/child''" and mntType = FilesystemTypeBPFFS]
      a b c d
    by simp
qed

text \<open>
  Claim C7. When the devices of \<open>path\<close> and of its lexical parent are equal, \<^verbatim>\<open>IsMountFS\<close>
  returns \<open>(false, false)\<close> without an error, and the queries it has made are the two
  \<^verbatim>\<open>Lstat\<close> calls: no \<^verbatim>\<open>Statfs\<close> is among them.
\<close>

theorem IsMountFS_same_device:
  assumes "Lstat sys path = Inr st"
    and "Lstat sys (Dir sys path) = Inr pst"
    and "Dev st = Dev pst"
  shows "IsMountFS sys mntType path =
           ((False, False, None), [LstatCall path, LstatCall (Dir sys path)])
         \<and> (\<forall>p. StatfsCall p \<notin> set (snd (IsMountFS sys mntType path)))"
  using assms by (simp add: IsMountFS_def Let_def)

theorem IsMountFS_same_device_witness:
  "Lstat exampleSys ''/sys/fs/cgroup'' = Inr \<lparr> Dev = 22 \<rparr>
   \<and> Lstat exampleSys (Dir exampleSys ''/sys/fs/cgroup'') = Inr \<lparr> Dev = 22 \<rparr>
   \<and> Dev \<lparr> Dev = 22 \<rparr> = Dev \<lparr> Dev = 22 \<rparr>
   \<and> IsMountFS exampleSys FilesystemTypeCgroup2 ''/sys/fs/cgroup'' =
       ((False, False, None), [LstatCall ''/sys/fs/cgroup'', LstatCall ''/sys/fs''])"
proof -
  have h1: "Lstat exampleSys ''/sys/fs/cgroup'' = Inr \<lparr> Dev = 22 \<rparr>"
    by (simp add: exampleSys_def)
  have h2: "Lstat exampleSys (Dir exampleSys ''/sys/fs/cgroup'') = Inr \<lparr> Dev = 22 \<rparr>"
    by (simp add: exampleSys_def)
  have h3: "Dev \<lparr> Dev = 22 \<rparr> = Dev \<lparr> Dev = 22 \<rparr>"
    by simp
  have d: "Dir exampleSys ''/sys/fs/cgroup'' = ''/sys/fs''"
    by (simp add: exampleSys_def)
  show ?thesis
    using IsMountFS_same_device [OF h1 h2 h3, where mntType = FilesystemTypeCgroup2] h1 h2 d
    by simp
qed

text \<open>
  Claim C9. Whatever the environment, the type and the path: \<^verbatim>\<open>IsMountFS\<close> never reports
  a type match without a mount point; with an error the type match is false; an error
  together with a mount point is the \<^verbatim>\<open>PathError\<close> of a failed \<^verbatim>\<open>Statfs\<close> on the path, and
  every other error is the \<^verbatim>\<open>PathError\<close> of an \<^verbatim>\<open>lstat\<close>, with both results false.
\<close>

theorem IsMountFS_result_shapes:
  "(case IsMountFS sys mntType path of
      ((isMountPoint, typeMatches, err), calls) \<Rightarrow>
        (typeMatches \<longrightarrow> isMountPoint)
        \<and> (err \<noteq> None \<longrightarrow> \<not> typeMatches)
        \<and> (err \<noteq> None \<and> isMountPoint \<longrightarrow>
             (\<exists>e. Statfs sys path = Inl e \<and> err = Some (PathError ''statfs'' path e)))
        \<and> (err \<noteq> None \<and> \<not> isMountPoint \<longrightarrow>
             (\<exists>p e. err = Some (PathError ''lstat'' p e))))"
  by (simp add: IsMountFS_def Let_def split: sum.splits)

theorem IsMountFS_result_shapes_witness:
  "fst (IsMountFS exampleSys FilesystemTypeBPFFS ''/mnt/stale'') =
     (True, False, Some (PathError ''statfs'' ''/mnt/stale'' ESTALE))
   \<and> Statfs exampleSys ''/mnt/stale'' = Inl ESTALE
   \<and> fst (IsMountFS exampleSys FilesystemTypeBPFFS ''/sys/fs/bpf'') = (True, True, None)
   \<and> (\<exists>p e. fst (IsMountFS exampleSys FilesystemTypeBPFFS ''/root/private'') =
         (False, False, Some (PathError ''lstat'' p e)))"
proof -
  have a: "fst (IsMountFS exampleSys FilesystemTypeBPFFS ''/mnt/stale'') =
      (True, False, Some (PathError ''statfs'' ''/mnt/stale'' ESTALE))"
    by (simp add: IsMountFS_def exampleSys_def)
  have b: "fst (IsMountFS exampleSys FilesystemTypeBPFFS ''/sys/fs/bpf'') = (True, True, None)"
    by (simp add: IsMountFS_def exampleSys_def)
  have c: "fst (fst (IsMountFS exampleSys FilesystemTypeBPFFS ''/root/private'')) = False
      \<and> snd (snd (fst (IsMountFS exampleSys FilesystemTypeBPFFS ''/root/private''))) \<noteq> None"
    by (simp add: IsMountFS_def exampleSys_def EACCES_def ENOENT_def)
  have s: "Statfs exampleSys ''/mnt/stale'' = Inl ESTALE"
    by (simp add: exampleSys_def)
  from IsMountFS_result_shapes
    [where sys = exampleSys and mntType = FilesystemTypeBPFFS and path = "''/root/private''"] c
  have "\<exists>p e. fst (IsMountFS exampleSys FilesystemTypeBPFFS ''/root/private'') =
         (False, False, Some (PathError ''lstat'' p e))"
    by (auto simp: split_def prod_eq_iff)
  with a b s show ?thesis by simp
qed

section \<open>The mount table parser\<close>

text \<open>
  Claim C2, as the code has it. A line fails with the error that holds the message and the
  raw line, and gives no entry, in each of these cases: the number of instances of the
  separator \<^verbatim>\<open>" - "\<close>, counted from the left without overlap as \<^verbatim>\<open>strings.Count\<close> does,
  is not one (a line in which the separator does not occur at all is such a line); the
  line splits in two and the left part splits on single spaces into fewer than 6 fields;
  the line splits in two and the right part splits into a number of fields other than 3.
\<close>

theorem parseMountInfoLine_rejects:
  "(Count line '' - '' \<noteq> 1 \<longrightarrow>
      parseMountInfoLine line = Inl (ErrorString (invalidSeparatorMsg @ line)))
   \<and> (occurrences line '' - '' = 0 \<longrightarrow> Count line '' - '' \<noteq> 1)
   \<and> (\<forall>l r. Split line '' - '' = [l, r]
          \<and> (length (Split l '' '') < 6 \<or> length (Split r '' '') \<noteq> 3) \<longrightarrow>
        parseMountInfoLine line = Inl (ErrorString (invalidEntryMsg @ line)))"
proof (intro conjI impI allI)
  assume "Count line '' - '' \<noteq> 1"
  then have "length (Split line '' - '') \<noteq> 2"
    by (simp add: length_Split)
  then show "parseMountInfoLine line = Inl (ErrorString (invalidSeparatorMsg @ line))"
    by (simp add: parseMountInfoLine_def)
next
  assume "occurrences line '' - '' = 0"
  then have "Count line '' - '' = 0"
    by (intro occurrences_zero_Count) simp_all
  then show "Count line '' - '' \<noteq> 1"
    by simp
next
  fix l r
  assume "Split line '' - '' = [l, r]
          \<and> (length (Split l '' '') < 6 \<or> length (Split r '' '') \<noteq> 3)"
  then show "parseMountInfoLine line = Inl (ErrorString (invalidEntryMsg @ line))"
    by (auto simp add: parseMountInfoLine_def Let_def)
qed

theorem parseMountInfoLine_rejects_witness:
  "Count ''garbage'' '' - '' \<noteq> 1 \<and> occurrences ''garbage'' '' - '' = 0
   \<and> parseMountInfoLine ''garbage'' = Inl (ErrorString (invalidSeparatorMsg @ ''garbage''))
   \<and> Count ''1 2 3 4 5 6 - tmpfs - rw'' '' - '' \<noteq> 1
   \<and> parseMountInfoLine ''1 2 3 4 5 6 - tmpfs - rw'' =
       Inl (ErrorString (invalidSeparatorMsg @ ''1 2 3 4 5 6 - tmpfs - rw''))
   \<and> Split ''1 2 3 - a b c'' '' - '' = [''1 2 3'', ''a b c'']
   \<and> length (Split ''1 2 3'' '' '') < 6
   \<and> parseMountInfoLine ''1 2 3 - a b c'' = Inl (ErrorString (invalidEntryMsg @ ''1 2 3 - a b c''))
   \<and> Split ''1 2 3 4 5 6 - a b'' '' - '' = [''1 2 3 4 5 6'', ''a b'']
   \<and> length (Split ''a b'' '' '') \<noteq> 3
   \<and> parseMountInfoLine ''1 2 3 4 5 6 - a b'' =
       Inl (ErrorString (invalidEntryMsg @ ''1 2 3 4 5 6 - a b''))"
proof -
  have a: "Count ''garbage'' '' - '' \<noteq> 1 \<and> occurrences ''garbage'' '' - '' = 0"
    by code_simp
  have b: "Count ''1 2 3 4 5 6 - tmpfs - rw'' '' - '' \<noteq> 1"
    by code_simp
  have c: "Split ''1 2 3 - a b c'' '' - '' = [''1 2 3'', ''a b c'']
      \<and> length (Split ''1 2 3'' '' '') < 6"
    by code_simp
  have d: "Split ''1 2 3 4 5 6 - a b'' '' - '' = [''1 2 3 4 5 6'', ''a b'']
      \<and> length (Split ''a b'' '' '') \<noteq> 3"
    by code_simp
  show ?thesis
    using parseMountInfoLine_rejects [where line = "''garbage''"]
      parseMountInfoLine_rejects [where line = "''1 2 3 4 5 6 - tmpfs - rw''"]
      parseMountInfoLine_rejects [where line = "''1 2 3 - a b c''"]
      parseMountInfoLine_rejects [where line = "''1 2 3 4 5 6 - a b''"]
      a b c d
    by simp
qed

text \<open>
  Claim C2, as the specification states it, fails: in the line below the separator occurs
  twice, at the indices 11 and 13, the two occurrences sharing a space.
  \<^verbatim>\<open>strings.Split\<close> takes the first and goes on behind it, so the line splits in two parts
  and is parsed into an entry.
\<close>

theorem parseMountInfoLine_rejects_counterexample:
  "occurrences ''1 2 3 4 5 6 - - a b'' '' - '' = 2
   \<and> Split ''1 2 3 4 5 6 - - a b'' '' - '' = [''1 2 3 4 5 6'', ''- a b'']
   \<and> parseMountInfoLine ''1 2 3 4 5 6 - - a b'' =
       Inr \<lparr> MountID = 1, ParentID = 2, StDev = ''3'', Root = ''4'', MountPoint = ''5'',
             MountOptions = ''6'', OptionalFields = [], FilesystemType = ''-'',
             MountSource = ''a'', SuperOptions = ''b'' \<rparr>"
  by code_simp

text \<open>
  Claim C4. For a line that splits in two parts, with \<open>6 + K\<close> fields on the left, three on
  the right and the first two left fields accepted by \<^verbatim>\<open>ParseInt\<close>, the entry holds the
  left fields 2 to 5 and the right fields 0 to 2 in their positions, and its optional
  fields are the left fields from index 6 on: \<open>K\<close> of them, in the original order.
\<close>

theorem parseMountInfoLine_fields:
  assumes "Split line '' - '' = [l, r]"
    and "Split l '' '' = lf" and "length lf = 6 + K"
    and "Split r '' '' = rf" and "length rf = 3"
    and "ParseInt (lf ! 0) = Inr mountID" and "ParseInt (lf ! 1) = Inr parentID"
  shows "parseMountInfoLine line =
           Inr \<lparr> MountID = mountID, ParentID = parentID,
                 StDev = lf ! 2, Root = lf ! 3, MountPoint = lf ! 4, MountOptions = lf ! 5,
                 OptionalFields = drop 6 lf,
                 FilesystemType = rf ! 0, MountSource = rf ! 1, SuperOptions = rf ! 2 \<rparr>
         \<and> length (drop 6 lf) = K
         \<and> (\<forall>i < K. drop 6 lf ! i = lf ! (6 + i))"
  using assms by (simp add: parseMountInfoLine_def Let_def optionalFields_loop_drop)

theorem parseMountInfoLine_fields_witness:
  "Split exampleLine '' - '' =
     [''17 1 8:1 / / rw,relatime shared:1'', ''ext4 /dev/sda1 rw,errors=remount-ro'']
   \<and> Split ''17 1 8:1 / / rw,relatime shared:1'' '' '' =
       [''17'', ''1'', ''8:1'', ''/'', ''/'', ''rw,relatime'', ''shared:1'']
   \<and> length [''17'', ''1'', ''8:1'', ''/'', ''/'', ''rw,relatime'', ''shared:1''] = 6 + 1
   \<and> Split ''ext4 /dev/sda1 rw,errors=remount-ro'' '' '' =
       [''ext4'', ''/dev/sda1'', ''rw,errors=remount-ro'']
   \<and> ParseInt ''17'' = Inr 17 \<and> ParseInt ''1'' = Inr 1
   \<and> parseMountInfoLine exampleLine = Inr exampleEntry"
proof -
  have h1: "Split exampleLine '' - '' =
      [''17 1 8:1 / / rw,relatime shared:1'', ''ext4 /dev/sda1 rw,errors=remount-ro'']"
    by code_simp
  have h2: "Split ''17 1 8:1 / / rw,relatime shared:1'' '' '' =
      [''17'', ''1'', ''8:1'', ''/'', ''/'', ''rw,relatime'', ''shared:1'']"
    by code_simp
  have h3: "length [''17'', ''1'', ''8:1'', ''/'', ''/'', ''rw,relatime'', ''shared:1''] = 6 + 1"
    by simp
  have h4: "Split ''ext4 /dev/sda1 rw,errors=remount-ro'' '' '' =
      [''ext4'', ''/dev/sda1'', ''rw,errors=remount-ro'']"
    by code_simp
  have h5: "length [''ext4'', ''/dev/sda1'', ''rw,errors=remount-ro''] = 3"
    by simp
  have h6: "ParseInt ([''17'', ''1'', ''8:1'', ''/'', ''/'', ''rw,relatime'', ''shared:1''] ! 0)
      = Inr 17"
    by code_simp
  have h7: "ParseInt ([''17'', ''1'', ''8:1'', ''/'', ''/'', ''rw,relatime'', ''shared:1''] ! 1)
      = Inr 1"
    by code_simp
  have p: "ParseInt ''17'' = Inr 17 \<and> ParseInt ''1'' = Inr 1"
    by code_simp
  show ?thesis
    using parseMountInfoLine_fields [OF h1 h2 h3 h4 h5 h6 h7] h1 h2 h4 p
    by (simp add: exampleEntry_def)
qed

text \<open>
  Claim C5, as the code has it. For a line that passes the separator and field-count
  checks and whose first or second left field is not a valid base-10 64-bit integer,
  parsing fails with the error that \<^verbatim>\<open>strconv.ParseInt\<close> returns for the first offending
  field, unchanged: a \<open>NumError\<close> with the function name \<^verbatim>\<open>ParseInt\<close>, the text of that
  field and the cause. That error does not carry the raw line.
\<close>

theorem parseMountInfoLine_bad_identifier:
  assumes "Split line '' - '' = [l, r]"
    and "Split l '' '' = lf" and "6 \<le> length lf"
    and "length (Split r '' '') = 3"
    and "\<not> valid_int64 (lf ! 0) \<or> \<not> valid_int64 (lf ! 1)"
  shows "\<exists>err cause.
           let field = (if valid_int64 (lf ! 0) then lf ! 1 else lf ! 0)
           in ParseInt field = Inl err
              \<and> parseMountInfoLine line = Inl err
              \<and> err = NumError ''ParseInt'' field cause
              \<and> \<not> carries err line"
proof -
  let ?field = "if valid_int64 (lf ! 0) then lf ! 1 else lf ! 0"
  have sep: "'' - '' \<noteq> []" and sp: "'' '' \<noteq> []" by simp_all
  have line: "line = l @ '' - '' @ r"
    using sep assms(1) by (rule Split_two)
  have "lf ! 0 \<in> set lf" and "lf ! 1 \<in> set lf"
    using assms(3) by (auto intro: nth_mem)
  then have "?field \<in> set lf"
    by simp
  then have "length ?field \<le> length l"
    using Split_elem_length [OF sp, of ?field l] assms(2) by simp
  then have short: "length ?field < length line"
    by (simp add: line)
  have n1: "\<not> contains ?field line"
    using contains_length [of ?field line] short by auto
  have "5 \<le> Count l '' ''"
    using length_Split [OF sp, of l] assms(2,3) by simp
  then have "5 \<le> length l"
    using Count_le_length [OF sp, of l] by simp
  moreover have "2 \<le> length r"
    using length_Split [OF sp, of r] Count_le_length [OF sp, of r] assms(4) by simp
  ultimately have n2: "\<not> contains ''ParseInt'' line"
    using contains_length [of "''ParseInt''" line] by (auto simp add: line)
  have bad: "\<not> valid_int64 ?field"
    using assms(5) by auto
  from ParseInt_invalid [OF bad] obtain cause
    where pi: "ParseInt ?field = Inl (NumError ''ParseInt'' ?field cause)"
    by (auto simp add: fnParseInt_def)
  have "parseMountInfoLine line = Inl (NumError ''ParseInt'' ?field cause)"
  proof (cases "valid_int64 (lf ! 0)")
    case False
    with pi assms show ?thesis
      by (simp add: parseMountInfoLine_def Let_def)
  next
    case True
    then obtain w where w: "ParseInt (lf ! 0) = Inr w"
      using ParseInt_Inr_iff [of "lf ! 0"] by blast
    with True pi assms show ?thesis
      by (simp add: parseMountInfoLine_def Let_def)
  qed
  with pi n1 n2 show ?thesis
    by (auto simp add: Let_def)
qed

theorem parseMountInfoLine_bad_identifier_witness:
  "Split ''x 1 8:1 / / rw - ext4 dev rw'' '' - '' = [''x 1 8:1 / / rw'', ''ext4 dev rw'']
   \<and> Split ''x 1 8:1 / / rw'' '' '' = [''x'', ''1'', ''8:1'', ''/'', ''/'', ''rw'']
   \<and> length (Split ''ext4 dev rw'' '' '') = 3
   \<and> valid_int64 ''x'' = False
   \<and> ParseInt ''x'' = Inl (NumError ''ParseInt'' ''x'' ErrSyntax)
   \<and> parseMountInfoLine ''x 1 8:1 / / rw - ext4 dev rw'' =
       Inl (NumError ''ParseInt'' ''x'' ErrSyntax)
   \<and> Split ''1 9223372036854775808 8:1 / / rw - ext4 dev rw'' '' - '' =
       [''1 9223372036854775808 8:1 / / rw'', ''ext4 dev rw'']
   \<and> Split ''1 9223372036854775808 8:1 / / rw'' '' '' =
       [''1'', ''9223372036854775808'', ''8:1'', ''/'', ''/'', ''rw'']
   \<and> valid_int64 ''1'' = True
   \<and> valid_int64 ''9223372036854775808'' = False
   \<and> ParseInt ''9223372036854775808'' =
       Inl (NumError ''ParseInt'' ''9223372036854775808'' ErrRange)
   \<and> parseMountInfoLine ''1 9223372036854775808 8:1 / / rw - ext4 dev rw'' =
       Inl (NumError ''ParseInt'' ''9223372036854775808'' ErrRange)"
proof -
  have h1: "Split ''x 1 8:1 / / rw - ext4 dev rw'' '' - '' = [''x 1 8:1 / / rw'', ''ext4 dev rw'']"
    by code_simp
  have h2: "Split ''x 1 8:1 / / rw'' '' '' = [''x'', ''1'', ''8:1'', ''/'', ''/'', ''rw'']"
    by code_simp
  have h3: "6 \<le> length [''x'', ''1'', ''8:1'', ''/'', ''/'', ''rw'']"
    by simp
  have h4: "length (Split ''ext4 dev rw'' '' '') = 3"
    by code_simp
  have x: "valid_int64 ''x'' = False"
    by code_simp
  have px: "ParseInt ''x'' = Inl (NumError ''ParseInt'' ''x'' ErrSyntax)"
    by code_simp
  have h5: "\<not> valid_int64 ([''x'', ''1'', ''8:1'', ''/'', ''/'', ''rw''] ! 0)
      \<or> \<not> valid_int64 ([''x'', ''1'', ''8:1'', ''/'', ''/'', ''rw''] ! 1)"
    using x by simp
  have a: "parseMountInfoLine ''x 1 8:1 / / rw - ext4 dev rw'' =
      Inl (NumError ''ParseInt'' ''x'' ErrSyntax)"
    using parseMountInfoLine_bad_identifier [OF h1 h2 h3 h4 h5] x px
    by (auto simp add: Let_def)
  have g1: "Split ''1 9223372036854775808 8:1 / / rw - ext4 dev rw'' '' - '' =
      [''1 9223372036854775808 8:1 / / rw'', ''ext4 dev rw'']"
    by code_simp
  have g2: "Split ''1 9223372036854775808 8:1 / / rw'' '' '' =
      [''1'', ''9223372036854775808'', ''8:1'', ''/'', ''/'', ''rw'']"
    by code_simp
  have g3: "6 \<le> length [''1'', ''9223372036854775808'', ''8:1'', ''/'', ''/'', ''rw'']"
    by simp
  have one: "valid_int64 ''1'' = True"
    by code_simp
  have big: "valid_int64 ''9223372036854775808'' = False"
    by code_simp
  have pbig: "ParseInt ''9223372036854775808'' =
      Inl (NumError ''ParseInt'' ''9223372036854775808'' ErrRange)"
    by code_simp
  have g5: "\<not> valid_int64 ([''1'', ''9223372036854775808'', ''8:1'', ''/'', ''/'', ''rw''] ! 0)
      \<or> \<not> valid_int64 ([''1'', ''9223372036854775808'', ''8:1'', ''/'', ''/'', ''rw''] ! 1)"
    using big by simp
  have b: "parseMountInfoLine ''1 9223372036854775808 8:1 / / rw - ext4 dev rw'' =
      Inl (NumError ''ParseInt'' ''9223372036854775808'' ErrRange)"
    using parseMountInfoLine_bad_identifier [OF g1 g2 g3 h4 g5] one big pbig
    by (auto simp add: Let_def)
  from h1 h2 h4 x px a g1 g2 one big pbig b show ?thesis
    by simp
qed

text \<open>
  Claim C5, as the specification states it, fails: the first field of the line below is
  not an integer, and the error that comes back holds the function name and the field
  \<^verbatim>\<open>x\<close>, not the raw line.
\<close>

theorem parseMountInfoLine_bad_identifier_counterexample:
  "hd (Split (hd (Split ''x 1 8:1 / / rw - ext4 dev rw'' '' - '')) '' '') = ''x''
   \<and> valid_int64 ''x'' = False
   \<and> parseMountInfoLine ''x 1 8:1 / / rw - ext4 dev rw'' =
       Inl (NumError ''ParseInt'' ''x'' ErrSyntax)
   \<and> carries (NumError ''ParseInt'' ''x'' ErrSyntax) ''x 1 8:1 / / rw - ext4 dev rw'' = False"
  by code_simp

text \<open>
  Claim C6, as the code has it. Take a line for malformed when the separator, counted from
  the left without overlap, does not occur exactly once in it or a field condition fails;
  these are the lines the loop body rejects. When the scanner yields at least one such
  line, \<^verbatim>\<open>parseMountInfoFile\<close> returns the error of the first of them, whatever follows it
  and whatever the scanner reports at the end, and the slice it returns is \<^verbatim>\<open>nil\<close>: none of
  the entries of the lines before.
\<close>

theorem parseMountInfoFile_first_malformed:
  assumes "\<exists>l \<in> set (tokens scanner). split_malformed l"
  shows "\<exists>pre bad post err.
           tokens scanner = pre @ bad # post
           \<and> (\<forall>l \<in> set pre. \<not> split_malformed l)
           \<and> split_malformed bad
           \<and> parseMountInfoLine bad = Inl err
           \<and> parseMountInfoFile scanner = ([], Some err)"
proof -
  from assms obtain pre bad post
    where dec: "tokens scanner = pre @ bad # post" and bad: "split_malformed bad"
      and pre: "\<forall>l \<in> set pre. \<not> split_malformed l"
    using split_list_first_prop [of "tokens scanner" split_malformed] by blast
  from bad obtain err where err: "parseMountInfoLine bad = Inl err"
    by (auto simp: split_malformed_iff)
  from pre have pre': "\<forall>l \<in> set pre. \<not> malformed l"
    by (simp add: split_malformed_malformed)
  from scan_loop_fail [OF pre' err] dec
  have "parseMountInfoFile scanner = ([], Some err)"
    by (simp add: parseMountInfoFile_def)
  with dec pre bad err show ?thesis by blast
qed

theorem parseMountInfoFile_first_malformed_witness:
  "(\<exists>l \<in> set (tokens \<lparr> tokens = [exampleLine, exampleLine, ''garbage'', exampleLine, ''1 2''],
                         scanErr = None \<rparr>). split_malformed l)
   \<and> split_malformed exampleLine = False
   \<and> split_malformed ''garbage'' = True
   \<and> parseMountInfoFile \<lparr> tokens = [exampleLine, exampleLine, ''garbage'', exampleLine, ''1 2''],
                           scanErr = None \<rparr> =
       ([], Some (ErrorString (invalidSeparatorMsg @ ''garbage'')))"
proof -
  let ?sc = "\<lparr> tokens = [exampleLine, exampleLine, ''garbage'', exampleLine, ''1 2''],
               scanErr = None \<rparr>"
  have ok: "split_malformed exampleLine = False"
    by code_simp
  have m: "split_malformed ''garbage'' = True"
    by code_simp
  have bad: "parseMountInfoLine ''garbage'' = Inl (ErrorString (invalidSeparatorMsg @ ''garbage''))"
    by code_simp
  from m have h: "\<exists>l \<in> set (tokens ?sc). split_malformed l"
    by simp
  from parseMountInfoFile_first_malformed [OF h] obtain pre b post err
    where dec: "[exampleLine, exampleLine, ''garbage'', exampleLine, ''1 2''] = pre @ b # post"
      and pre: "\<forall>l \<in> set pre. \<not> split_malformed l"
      and b: "split_malformed b"
      and err: "parseMountInfoLine b = Inl err"
      and res: "parseMountInfoFile ?sc = ([], Some err)"
    by auto
  have "b = ''garbage''"
  proof (cases pre)
    case Nil
    with dec b ok show ?thesis by auto
  next
    case c1: (Cons x1 p1)
    show ?thesis
    proof (cases p1)
      case Nil
      with c1 dec b ok show ?thesis by auto
    next
      case c2: (Cons x2 p2)
      show ?thesis
      proof (cases p2)
        case Nil
        with c1 c2 dec show ?thesis by simp
      next
        case (Cons x3 p3)
        with c1 c2 dec pre m show ?thesis by auto
      qed
    qed
  qed
  with err bad res h ok m show ?thesis by simp
qed

text \<open>
  Claim C6, as the specification states it, fails. The third of the five lines below is
  malformed in the words of the specification: the separator occurs in it twice, at the
  indices 11 and 13. The parser splits it in two parts all the same, accepts it, and the
  call returns the five entries and no error.
\<close>

theorem parseMountInfoFile_first_malformed_counterexample:
  "occurrences ''1 2 3 4 5 6 - - a b'' '' - '' = 2
   \<and> spec_malformed ''1 2 3 4 5 6 - - a b'' = True
   \<and> parseMountInfoFile
       \<lparr> tokens = [exampleLine, exampleLine, ''1 2 3 4 5 6 - - a b'', exampleLine, exampleLine],
         scanErr = None \<rparr> =
       ([exampleEntry, exampleEntry,
         \<lparr> MountID = 1, ParentID = 2, StDev = ''3'', Root = ''4'', MountPoint = ''5'',
           MountOptions = ''6'', OptionalFields = [], FilesystemType = ''-'',
           MountSource = ''a'', SuperOptions = ''b'' \<rparr>,
         exampleEntry, exampleEntry], None)"
  by code_simp

text \<open>
  Claim C8. With no line and no error of the scanner the result is the empty sequence and
  no error. More generally, when the scanner reaches the end of the input without an
  error and none of its lines is malformed, the call returns no error, and the entries are
  those of the lines, one for each, in the order read.
\<close>

theorem parseMountInfoFile_end_of_stream:
  "parseMountInfoFile \<lparr> tokens = [], scanErr = None \<rparr> = ([], None)
   \<and> (scanErr scanner = None \<and> (\<forall>l \<in> set (tokens scanner). \<not> malformed l) \<longrightarrow>
        snd (parseMountInfoFile scanner) = None
        \<and> map Inr (fst (parseMountInfoFile scanner)) = map parseMountInfoLine (tokens scanner))"
proof (intro conjI impI)
  show "parseMountInfoFile \<lparr> tokens = [], scanErr = None \<rparr> = ([], None)"
    by (simp add: parseMountInfoFile_def)
next
  assume a: "scanErr scanner = None \<and> (\<forall>l \<in> set (tokens scanner). \<not> malformed l)"
  then obtain res where res: "scan_loop (tokens scanner) [] = Inr ([] @ res)"
      "map Inr res = map parseMountInfoLine (tokens scanner)"
    using scan_loop_ok [of "tokens scanner" "[]"] by blast
  with a show "snd (parseMountInfoFile scanner) = None"
    by (simp add: parseMountInfoFile_def)
  from a res show "map Inr (fst (parseMountInfoFile scanner)) = map parseMountInfoLine (tokens scanner)"
    by (simp add: parseMountInfoFile_def)
qed

theorem parseMountInfoFile_end_of_stream_witness:
  "scanErr \<lparr> tokens = [exampleLine, exampleLine], scanErr = None \<rparr> = None
   \<and> malformed exampleLine = False
   \<and> parseMountInfoFile \<lparr> tokens = [exampleLine, exampleLine], scanErr = None \<rparr> =
       ([exampleEntry, exampleEntry], None)"
proof -
  let ?sc = "\<lparr> tokens = [exampleLine, exampleLine], scanErr = None \<rparr>"
  have p: "parseMountInfoLine exampleLine = Inr exampleEntry"
    by code_simp
  then have ok: "\<not> malformed exampleLine"
    by (simp add: malformed_def)
  then have h: "scanErr ?sc = None \<and> (\<forall>l \<in> set (tokens ?sc). \<not> malformed l)"
    by simp
  with parseMountInfoFile_end_of_stream [where scanner = ?sc]
  have "snd (parseMountInfoFile ?sc) = None"
    and "map Inr (fst (parseMountInfoFile ?sc)) = map parseMountInfoLine (tokens ?sc)"
    by blast+
  with p have "snd (parseMountInfoFile ?sc) = None"
    and "fst (parseMountInfoFile ?sc) = [exampleEntry, exampleEntry]"
    by (auto simp add: map_eq_Cons_conv)
  then have "parseMountInfoFile ?sc = ([exampleEntry, exampleEntry], None)"
    by (simp add: prod_eq_iff)
  with h ok show ?thesis by simp
qed

text \<open>
  Claim C10. \<^verbatim>\<open>strings.Split\<close> on a single space yields an empty field between two
  consecutive spaces. The first line has two spaces after the root, on the left of the
  separator, and parses into an entry whose mount point is the empty string; the second
  has two spaces after the filesystem type, on the right, and parses into an entry whose
  mount source is the empty string.
\<close>

theorem parseMountInfoLine_empty_field:
  "parseMountInfoLine ''1 2 8:1 /  rw - ext4 dev rw'' =
     Inr \<lparr> MountID = 1, ParentID = 2, StDev = ''8:1'', Root = ''/'', MountPoint = [],
           MountOptions = ''rw'', OptionalFields = [], FilesystemType = ''ext4'',
           MountSource = ''dev'', SuperOptions = ''rw'' \<rparr>
   \<and> parseMountInfoLine ''1 2 8:1 / / rw - ext4  rw'' =
     Inr \<lparr> MountID = 1, ParentID = 2, StDev = ''8:1'', Root = ''/'', MountPoint = ''/'',
           MountOptions = ''rw'', OptionalFields = [], FilesystemType = ''ext4'',
           MountSource = [], SuperOptions = ''rw'' \<rparr>"
  by code_simp

end
